theory Spec2Isabelle
  imports Complex_Main
begin

section \<open>The application run loop of Application.cpp\<close>

text \<open>
  A shallow embedding of \<^verbatim>\<open>open3d::visualization::gui::Application\<close>
  (\<^verbatim>\<open>cpp/open3d/visualization/gui/Application.cpp\<close>). The fields of
  \<^verbatim>\<open>Application::Impl\<close> become a record that every operation takes and returns.
  Calls into collaborators that live in other files (the window system, the rendering
  engine, windows, tasks, posted closures, the native alert) are recorded, in call
  order, in the field \<open>trace\<close>; what those collaborators do inside is not modelled,
  and no callback is taken to call back into the application. A posted closure and a
  tick handler may throw: the code catches nothing, so the exception leaves the
  operation, and the model returns it together with the state at that moment. The
  other collaborators are taken to return normally. The file system, the home
  directory, the steady clock, the finished flag of a task and which callbacks throw
  are read through an environment record.
\<close>

subsection \<open>Data\<close>

text \<open>
  A \<^verbatim>\<open>std::shared_ptr<Window>\<close> is modelled by the address of the window it owns
  (never null, since \<^verbatim>\<open>AddWindow\<close> dereferences it); a raw \<^verbatim>\<open>Window *\<close> is a
  \<open>window option\<close>, with \<open>None\<close> for \<^verbatim>\<open>nullptr\<close>. A posted
  \<^verbatim>\<open>std::function<void()>\<close> and a \<^verbatim>\<open>Task\<close> are known by an identifier.
\<close>

type_synonym window = nat
type_synonym closure = nat
type_synonym task = nat

datatype window_system = GLFWWindowSystem | WebRTCWindowSystem

datatype RunStatus = CONTINUE | DONE

text \<open>
  \<open>LogError\<close>: \<^verbatim>\<open>utility::LogError\<close> is declared in Console.h, which is not part of
  the sources at hand. Modelled from the spec: it is a hard error, so the call does not
  return to the caller. \<open>ClosureRaised\<close>: an exception left the posted closure named.
  \<open>TickHandlerRaised\<close>: an exception left \<^verbatim>\<open>OnTickEvent\<close> of some window.
  \<open>NullWindowSystem\<close>: \<^verbatim>\<open>window_system_\<close> is dereferenced while it is null.
\<close>

datatype error =
    LogError string
  | ClosureRaised closure
  | TickHandlerRaised
  | NullWindowSystem

datatype event =
    WS_Initialize
  | WS_Uninitialize
  | WaitEventsTimeout real
  | SelectBackend_kOpenGL
  | DestroyInstance
  | SetResourcePath string
  | ShowNativeAlert string
  | SetMouseEventCallback
  | SetRedrawCallback
  | StartWebRTCServer
  | OnResize window
  | Show window bool
  | OnTickEvent "window set"
  | TickInterrupted
  | MakeDrawContextCurrent window
  | Call closure
  | RestoreDrawContext window
  | PostRedraw window
  | Run task
  | Join task
  | Unlock
  | Relock

text \<open>
  \<open>OnTickEvent ws\<close> stands for one pass of the tick loop that reached every window of
  \<open>ws\<close>, in the unspecified order of the set. \<open>TickInterrupted\<close> stands for a pass that
  an exception ended; which windows it had reached by then is not recorded.
\<close>

text \<open>
  \<open>Now\<close> is the value that \<^verbatim>\<open>Application::Now()\<close> returns, a \<^verbatim>\<open>double\<close>.
  \<open>Throws f\<close>: the posted closure \<open>f\<close> throws when invoked. \<open>TickThrows w\<close>: the
  tick handler of window \<open>w\<close> throws.
\<close>

record env =
  GetUnixHome :: string
  FileExists :: "string \<Rightarrow> bool"
  DirectoryExists :: "string \<Rightarrow> bool"
  Now :: real
  IsFinished :: "task \<Rightarrow> bool"
  Throws :: "closure \<Rightarrow> bool"
  TickThrows :: "window \<Rightarrow> bool"

text \<open>
  \<open>engine_resource_path\<close> is the path held by \<^verbatim>\<open>rendering::EngineInstance\<close>
  (\<^verbatim>\<open>SetResourcePath\<close> / \<^verbatim>\<open>GetResourcePath\<close>); \<open>font_path\<close> is
  \<^verbatim>\<open>theme_.font_path\<close>. The two \<^verbatim>\<open>std::unordered_set\<close>s are sets.
\<close>

record app =
  is_initialized :: bool
  window_system :: "window_system option"
  font_path :: string
  last_time :: real
  is_ws_initialized :: bool
  is_running :: bool
  should_quit :: bool
  windows :: "window set"
  windows_to_be_destroyed :: "window set"
  running_tasks :: "task list"
  posted :: "(window option \<times> closure) list"
  engine_resource_path :: string
  trace :: "event list"

subsection \<open>Double precision\<close>

text \<open>
  A finite \<^verbatim>\<open>double\<close> is modelled by the real number it denotes. \<open>to_double\<close> is
  the rounding of IEEE 754 binary64 (to nearest, ties to even) that every literal and
  every arithmetic operation of the source goes through: 53 significant bits, the last
  one worth \<open>2 powi ulp_exponent x\<close>, with the exponent of the leading bit no smaller
  than \<open>-1022\<close>. Expressions are taken to be evaluated in binary64, without
  extended precision. Overflow to infinity (from \<open>2 ^ 1024\<close> on) is not modelled;
  the clock readings in seconds are nowhere near.
\<close>

definition round_ties_even :: "real \<Rightarrow> int" where
  "round_ties_even y =
     (let f = \<lfloor>y\<rfloor>; d = y - of_int f
      in if d < 1 / 2 then f else if 1 / 2 < d then f + 1
         else if even f then f else f + 1)"

definition ulp_exponent :: "real \<Rightarrow> int" where
  "ulp_exponent x = max \<lfloor>log 2 \<bar>x\<bar>\<rfloor> (- 1022) - 52"

definition to_double :: "real \<Rightarrow> real" where
  "to_double x =
     (if x = 0 then 0
      else of_int (round_ties_even (x / 2 powi ulp_exponent x)) * 2 powi ulp_exponent x)"

definition RUNLOOP_DELAY_SEC :: real where
  "RUNLOOP_DELAY_SEC = to_double 0.010"

text \<open>
  The test \<^verbatim>\<open>now - impl_->last_time_ >= 0.95 * RUNLOOP_DELAY_SEC\<close> of
  \<^verbatim>\<open>ProcessQueuedEvents\<close>, with \<open>prev\<close> for \<^verbatim>\<open>last_time_\<close>.
\<close>

definition tick_due :: "real \<Rightarrow> real \<Rightarrow> bool" where
  "tick_due now prev \<longleftrightarrow>
     to_double (now - prev) \<ge> to_double (to_double 0.95 * RUNLOOP_DELAY_SEC)"

definition emit :: "event list \<Rightarrow> app \<Rightarrow> app" where
  "emit es s = s\<lparr>trace := trace s @ es\<rparr>"

text \<open>The state after the constructor \<^verbatim>\<open>Application::Application()\<close>.\<close>

definition new_Application :: app where
  "new_Application =
     \<lparr> is_initialized = False, window_system = None, font_path = ''Roboto-Medium.ttf'',
       last_time = 0, is_ws_initialized = False, is_running = False, should_quit = False,
       windows = {}, windows_to_be_destroyed = {}, running_tasks = [], posted = [],
       engine_resource_path = [], trace = [] \<rparr>"

subsection \<open>Preparing and cleaning up the environment\<close>

definition InitWindowSystem :: "app \<Rightarrow> app" where
  "InitWindowSystem s =
     (let s1 = (if window_system s = None
                then s\<lparr>window_system := Some GLFWWindowSystem\<rparr> else s)
      in if \<not> is_ws_initialized s1
         then (emit [WS_Initialize] s1)\<lparr>is_ws_initialized := True\<rparr>
         else s1)"

definition PrepareForRunning :: "app \<Rightarrow> app" where
  "PrepareForRunning s = emit [SelectBackend_kOpenGL] (InitWindowSystem s)"

definition CleanupAfterRunning :: "app \<Rightarrow> app" where
  "CleanupAfterRunning s =
     (let s1 = emit [DestroyInstance] s;
          s2 = (if window_system s1 \<noteq> None then emit [WS_Uninitialize] s1 else s1)
      in s2\<lparr>is_ws_initialized := False\<rparr>)"

subsection \<open>Initialize\<close>

text \<open>
  \<^verbatim>\<open>Application::Initialize(const char *resource_path_)\<close>. The local
  \<^verbatim>\<open>resource_path\<close> is built from the home directory; the parameter is not read.
  When \<open>LogError\<close> raises, the engine's resource path has already been set and the
  window system prepared, so the state at the raise is returned with the error.
\<close>

definition Initialize :: "env \<Rightarrow> string \<Rightarrow> app \<Rightarrow> (error + unit) \<times> app" where
  "Initialize e resource_path_arg s =
     (let resource_path = GetUnixHome e @ ''/repo/Open3D/build/bin/resources'';
          s1 = PrepareForRunning s
      in if is_initialized s1 then (Inr (), s1)
         else
           let s2 = (emit [SetResourcePath resource_path] s1)
                      \<lparr>engine_resource_path := resource_path\<rparr>;
               uiblit_path = resource_path @ ''/ui_blit.filamat''
           in if \<not> FileExists e uiblit_path
              then (Inl (LogError (''Resource directory does not have Open3D resources: ''
                                    @ resource_path)), s2)
              else (Inr (), s2\<lparr>font_path := resource_path @ ''/'' @ font_path s2,
                                is_initialized := True\<rparr>))"

subsection \<open>The window registry\<close>

definition AddWindow :: "window \<Rightarrow> app \<Rightarrow> app" where
  "AddWindow w s =
     (let s1 = (if window_system s = Some WebRTCWindowSystem
                then emit [SetMouseEventCallback, SetRedrawCallback, StartWebRTCServer] s
                else s);
          s2 = emit [OnResize w, Show w True] s1
      in s2\<lparr>windows := insert w (windows s2)\<rparr>)"

text \<open>
  \<^verbatim>\<open>Application::RemoveWindow(Window *window)\<close>: the loop stops at the element
  whose address is the argument, if there is one; the emptiness test follows in
  either case.
\<close>

definition RemoveWindow :: "window option \<Rightarrow> app \<Rightarrow> app" where
  "RemoveWindow wp s =
     (let s1 = (case wp of
                  None \<Rightarrow> s
                | Some w \<Rightarrow>
                    if w \<in> windows s
                    then (emit [Show w False] s)
                           \<lparr>windows_to_be_destroyed := insert w (windows_to_be_destroyed s),
                            windows := windows s - {w}\<rparr>
                    else s)
      in if windows s1 = {} then s1\<lparr>should_quit := True\<rparr> else s1)"

subsection \<open>Posting to the main thread, background tasks\<close>

definition PostToMainThread :: "window option \<Rightarrow> closure \<Rightarrow> app \<Rightarrow> app" where
  "PostToMainThread wp f s = s\<lparr>posted := posted s @ [(wp, f)]\<rparr>"

definition RunInThread :: "task \<Rightarrow> app \<Rightarrow> app" where
  "RunInThread t s = emit [Run t] (s\<lparr>running_tasks := running_tasks s @ [t]\<rparr>)"

subsection \<open>Running the posted functions\<close>

text \<open>
  The loop \<^verbatim>\<open>for (auto &p : impl_->posted_)\<close>. An entry whose window is not null
  and not among the active windows is skipped. Otherwise the closure is called, between
  \<^verbatim>\<open>MakeDrawContextCurrent\<close> and \<^verbatim>\<open>RestoreDrawContext\<close>, \<^verbatim>\<open>PostRedraw\<close> when
  there is a window. An exception that leaves the closure leaves the loop.
\<close>

fun drain :: "env \<Rightarrow> (window option \<times> closure) list \<Rightarrow> app \<Rightarrow> error \<times> app + app" where
  "drain e [] s = Inr s"
| "drain e (p # ps) s =
     (case fst p of
        None \<Rightarrow>
          if Throws e (snd p)
          then Inl (ClosureRaised (snd p), emit [Call (snd p)] s)
          else drain e ps (emit [Call (snd p)] s)
      | Some w \<Rightarrow>
          if w \<in> windows s then
            if Throws e (snd p)
            then Inl (ClosureRaised (snd p),
                      emit [MakeDrawContextCurrent w, Call (snd p)] s)
            else drain e ps
                   (emit [MakeDrawContextCurrent w, Call (snd p),
                          RestoreDrawContext w, PostRedraw w] s)
          else drain e ps s)"

text \<open>
  The block under \<^verbatim>\<open>// Run any posted functions\<close>: the unlocker is released around
  taking the lock, the loop runs, and \<^verbatim>\<open>posted_.clear()\<close> follows if the loop is
  left normally.
\<close>

definition run_posted_functions :: "env \<Rightarrow> app \<Rightarrow> error \<times> app + app" where
  "run_posted_functions e s =
     (let s3 = emit [Unlock, Relock] s
      in case drain e (posted s3) s3 of
           Inl raised \<Rightarrow> Inl raised
         | Inr s4 \<Rightarrow> Inr (s4\<lparr>posted := []\<rparr>))"

subsection \<open>One pass over the queued events\<close>

text \<open>
  \<^verbatim>\<open>running_tasks_.remove_if(...)\<close>: a finished task is erased, which runs its
  destructor (a join).
\<close>

fun remove_finished :: "env \<Rightarrow> task list \<Rightarrow> event list \<times> task list" where
  "remove_finished e [] = ([], [])"
| "remove_finished e (t # ts) =
     (let (js, r) = remove_finished e ts
      in if IsFinished e t then (Join t # js, r) else (js, t # r))"

text \<open>
  \<^verbatim>\<open>Application::ProcessQueuedEvents\<close>. The first statement after
  \<^verbatim>\<open>unlocker.unlock()\<close> dereferences \<^verbatim>\<open>window_system_\<close>. In the tick loop an
  exception from one handler ends the pass before \<^verbatim>\<open>last_time_\<close> is assigned.
\<close>

definition ProcessQueuedEvents :: "env \<Rightarrow> app \<Rightarrow> error \<times> app + RunStatus \<times> app" where
  "ProcessQueuedEvents e s =
     (if window_system s = None then Inl (NullWindowSystem, emit [Unlock] s)
      else
        let s1 = emit [Unlock, WaitEventsTimeout RUNLOOP_DELAY_SEC, Relock] s;
            now = Now e
        in if tick_due now (last_time s1) \<and> (\<exists>w \<in> windows s1. TickThrows e w)
           then Inl (TickHandlerRaised, emit [TickInterrupted] s1)
           else
             let s2 = (if tick_due now (last_time s1)
                       then (emit [OnTickEvent (windows s1)] s1)\<lparr>last_time := now\<rparr>
                       else s1)
             in case run_posted_functions e s2 of
                  Inl raised \<Rightarrow> Inl raised
                | Inr s4 \<Rightarrow>
                    let (js, r) = remove_finished e (running_tasks s4);
                        s5 = (emit js s4)\<lparr>running_tasks := r\<rparr>;
                        s6 = s5\<lparr>windows_to_be_destroyed := {}\<rparr>
                    in Inr (if should_quit s6 then DONE else CONTINUE, s6))"

subsection \<open>One tick of the run loop\<close>

text \<open>
  The loop that clears the running tasks in \<^verbatim>\<open>RunOneTick\<close>:
  \<^verbatim>\<open>for (it = begin(); it != end(); ++it) { current = it; ++it; erase(current); }\<close>.
  Each round erases the element at \<open>it\<close> and then advances \<open>it\<close> twice: once in
  the body, once in the loop header, so the element after the erased one is stepped
  over. In \<open>clear_loop todo skipped\<close> the iterator is at the head of \<open>todo\<close> and
  \<open>skipped\<close> are the elements before it, in order; with \<open>todo\<close> empty the iterator
  is \<^verbatim>\<open>end()\<close> and the loop is over. When the element erased is the last one, the
  header increments an iterator that equals \<^verbatim>\<open>end()\<close>. The C++ standard leaves that
  undefined; the model follows \<^verbatim>\<open>std::list\<close> as the standard libraries build it, a
  ring through the end node, where the increment arrives at \<^verbatim>\<open>begin()\<close>: the loop
  goes on over the elements it had stepped over, or ends if none is left.
\<close>

function clear_loop :: "task list \<Rightarrow> task list \<Rightarrow> event list \<times> task list" where
  "clear_loop [] skipped = ([], skipped)"
| "clear_loop [t] skipped =
     (let (js, r) = clear_loop skipped [] in (Join t # js, r))"
| "clear_loop (t # u # ts) skipped =
     (let (js, r) = clear_loop ts (skipped @ [u]) in (Join t # js, r))"
  by pat_completeness auto
termination
  by (relation "measure (\<lambda>(todo, skipped). length todo + length skipped)") auto

definition clear_running_tasks :: "task list \<Rightarrow> event list \<times> task list" where
  "clear_running_tasks ts = clear_loop ts []"

definition quote :: string where
  "quote = [CHR 0x27]"

definition newline :: string where
  "newline = [CHR 0x0A]"

text \<open>The first part of \<^verbatim>\<open>RunOneTick\<close>: \<open>Inl\<close> is the early \<^verbatim>\<open>return false\<close>.\<close>

definition start_if_not_running :: "env \<Rightarrow> app \<Rightarrow> app + app" where
  "start_if_not_running e s =
     (if \<not> is_running s then
        if \<not> is_initialized s
        then Inl (emit [ShowNativeAlert
                    ''Internal error: Application::Initialize() was not called''] s)
        else if \<not> DirectoryExists e (engine_resource_path s)
        then Inl (emit [ShowNativeAlert
                    (''Could not find resource directory:'' @ newline @ quote
                       @ engine_resource_path s @ quote @ '' does not exist'')] s)
        else if \<not> FileExists e (font_path s)
        then Inl (emit [ShowNativeAlert
                    (''Could not load UI font:'' @ newline @ quote
                       @ font_path s @ quote @ '' does not exist'')] s)
        else Inr ((PrepareForRunning s)\<lparr>is_running := True\<rparr>)
      else Inr s)"

text \<open>The second part: what follows \<^verbatim>\<open>ProcessQueuedEvents\<close>.\<close>

definition cleanup_if_done :: "bool \<Rightarrow> RunStatus \<Rightarrow> app \<Rightarrow> app" where
  "cleanup_if_done cleanup_if_no_windows status s =
     (if status = DONE then
        if cleanup_if_no_windows then
          let (js, r) = clear_running_tasks (running_tasks s)
          in (CleanupAfterRunning
                ((emit js s)\<lparr>running_tasks := r, is_running := False\<rparr>))
               \<lparr>should_quit := False\<rparr>
        else s\<lparr>should_quit := False\<rparr>
      else s)"

text \<open>
  \<^verbatim>\<open>Application::RunOneTick\<close>. \<open>Inl\<close> is an exception that left
  \<^verbatim>\<open>ProcessQueuedEvents\<close> and so the step, with the state it left behind; \<open>Inr\<close>
  is the value returned.
\<close>

definition RunOneTick :: "env \<Rightarrow> bool \<Rightarrow> app \<Rightarrow> error \<times> app + bool \<times> app" where
  "RunOneTick e cleanup_if_no_windows s =
     (case start_if_not_running e s of
        Inl s' \<Rightarrow> Inr (False, s')
      | Inr s1 \<Rightarrow>
          (case ProcessQueuedEvents e s1 of
             Inl raised \<Rightarrow> Inl raised
           | Inr (status, s2) \<Rightarrow>
               Inr ((status = CONTINUE), cleanup_if_done cleanup_if_no_windows status s2)))"

subsection \<open>Reading results and the trace\<close>

text \<open>The state an operation leaves behind, whether it returned or raised.\<close>

definition drained :: "error \<times> app + app \<Rightarrow> app" where
  "drained r = (case r of Inl (err, s) \<Rightarrow> s | Inr s \<Rightarrow> s)"

definition stepped :: "error \<times> app + 'a \<times> app \<Rightarrow> app" where
  "stepped r = (case r of Inl (err, s) \<Rightarrow> s | Inr (x, s) \<Rightarrow> s)"

text \<open>
  The events recorded between two states, the closures invoked in a stretch of events
  (in order), and the tick dispatches in it (each with the set of windows it reached).
\<close>

definition since :: "app \<Rightarrow> app \<Rightarrow> event list" where
  "since s s' = drop (length (trace s)) (trace s')"

fun calls :: "event list \<Rightarrow> closure list" where
  "calls [] = []"
| "calls (Call f # es) = f # calls es"
| "calls (ev # es) = calls es"

fun ticks :: "event list \<Rightarrow> window set list" where
  "ticks [] = []"
| "ticks (OnTickEvent ws # es) = ws # ticks es"
| "ticks (ev # es) = ticks es"

text \<open>A posted entry passes the test of the drain loop: no target, or a target that is active.\<close>

definition still_active :: "window set \<Rightarrow> window option \<times> closure \<Rightarrow> bool" where
  "still_active ws p = (case fst p of None \<Rightarrow> True | Some w \<Rightarrow> w \<in> ws)"

text \<open>No closure that a drain of the queue of \<open>s\<close> would invoke throws.\<close>

definition none_throws :: "env \<Rightarrow> app \<Rightarrow> bool" where
  "none_throws e s \<longleftrightarrow>
     (\<forall>p \<in> set (posted s). still_active (windows s) p \<longrightarrow> \<not> Throws e (snd p))"

text \<open>The events of one entry whose closure returns, and of a whole drain of such entries.\<close>

definition run_posted :: "window set \<Rightarrow> window option \<times> closure \<Rightarrow> event list" where
  "run_posted ws p =
     (case fst p of
        None \<Rightarrow> [Call (snd p)]
      | Some w \<Rightarrow>
          if w \<in> ws
          then [MakeDrawContextCurrent w, Call (snd p), RestoreDrawContext w, PostRedraw w]
          else [])"

definition drain_events :: "app \<Rightarrow> event list" where
  "drain_events s = [Unlock, Relock] @ concat (map (run_posted (windows s)) (posted s))"



text \<open>
  The window system exists once the loop is running: \<^verbatim>\<open>RunOneTick\<close> sets
  \<^verbatim>\<open>is_running_\<close> only after \<^verbatim>\<open>PrepareForRunning\<close>, and nothing resets the pointer.
\<close>

definition ws_ready :: "app \<Rightarrow> bool" where
  "ws_ready s \<longleftrightarrow> (is_running s \<longrightarrow> window_system s \<noteq> None)"


subsection \<open>Sequences of registry operations\<close>

datatype registry_op = Add window | Remove "window option"

fun apply_op :: "registry_op \<Rightarrow> app \<Rightarrow> app" where
  "apply_op (Add w) s = AddWindow w s"
| "apply_op (Remove wp) s = RemoveWindow wp s"

fun run_ops :: "registry_op list \<Rightarrow> app \<Rightarrow> app" where
  "run_ops [] s = s"
| "run_ops (x # xs) s = run_ops xs (apply_op x s)"

text \<open>No \<open>Add\<close> of the sequence is given a window that is pending destruction at that moment.\<close>

fun adds_not_pending :: "registry_op list \<Rightarrow> app \<Rightarrow> bool" where
  "adds_not_pending [] s = True"
| "adds_not_pending (Add w # xs) s =
     (w \<notin> windows_to_be_destroyed s \<and> adds_not_pending xs (AddWindow w s))"
| "adds_not_pending (Remove wp # xs) s = adds_not_pending xs (RemoveWindow wp s)"

text \<open>
  After every operation of the sequence the two sets are disjoint, and a window that was
  pending before the operation and is active after it was active before it as well.
\<close>

fun registry_ok :: "registry_op list \<Rightarrow> app \<Rightarrow> bool" where
  "registry_ok [] s = True"
| "registry_ok (x # xs) s =
     (let s' = apply_op x s
      in windows s' \<inter> windows_to_be_destroyed s' = {}
         \<and> windows_to_be_destroyed s \<inter> windows s' \<subseteq> windows s
         \<and> registry_ok xs s')"

subsection \<open>Concrete environments and runs\<close>

definition resources :: string where
  "resources = ''/home/user/repo/Open3D/build/bin/resources''"

text \<open>
  The resources are where \<^verbatim>\<open>Initialize\<close> looks; the clock reads one second; no task
  has finished and no callback throws.
\<close>

definition env_ok :: env where
  "env_ok = \<lparr> GetUnixHome = ''/home/user'',
               FileExists = (\<lambda>p. p = resources @ ''/ui_blit.filamat''
                                \<or> p = resources @ ''/Roboto-Medium.ttf''),
               DirectoryExists = (\<lambda>p. p = resources),
               Now = 1,
               IsFinished = (\<lambda>t. False),
               Throws = (\<lambda>f. False),
               TickThrows = (\<lambda>w. False) \<rparr>"


text \<open>
  The same, with the clock at the \<^verbatim>\<open>double\<close> nearest to 9.5 ms, which is the
  value of \<^verbatim>\<open>0.95 * RUNLOOP_DELAY_SEC\<close> and lies below 9.5 ms.
\<close>

definition boundary_time :: real where
  "boundary_time = 5476377146882523 / 2 ^ 59"




text \<open>The resources are under \<^verbatim>\<open>/opt/open3d/resources\<close> only.\<close>

definition env_bundle_elsewhere :: env where
  "env_bundle_elsewhere =
     \<lparr> GetUnixHome = ''/home/user'',
       FileExists = (\<lambda>p. p = ''/opt/open3d/resources/ui_blit.filamat''
                        \<or> p = ''/opt/open3d/resources/Roboto-Medium.ttf''),
       DirectoryExists = (\<lambda>p. p = ''/opt/open3d/resources''),
       Now = 1,
       IsFinished = (\<lambda>t. False),
       Throws = (\<lambda>f. False),
       TickThrows = (\<lambda>w. False) \<rparr>"

text \<open>Nothing exists on disk; the clock reads two seconds.\<close>

definition env_empty :: env where
  "env_empty =
     \<lparr> GetUnixHome = ''/home/user'', FileExists = (\<lambda>p. False),
       DirectoryExists = (\<lambda>p. False), Now = 2, IsFinished = (\<lambda>t. False),
       Throws = (\<lambda>f. False), TickThrows = (\<lambda>w. False) \<rparr>"

text \<open>The resource directory is there, the files in it are not.\<close>

definition env_no_font :: env where
  "env_no_font = env_ok\<lparr>FileExists := (\<lambda>p. False)\<rparr>"

definition initialized_app :: app where
  "initialized_app = snd (Initialize env_ok resources new_Application)"

definition one_window :: app where
  "one_window = AddWindow 1 new_Application"









text \<open>
  A whole run: initialize, add window 1, one tick (which starts the loop), start the
  tasks \<open>ts\<close> (none of which finishes), remove window 1, one more tick with cleanup
  requested. The value is the result of that last tick.
\<close>

definition close_last_window_with_tasks :: "task list \<Rightarrow> error \<times> app + bool \<times> app" where
  "close_last_window_with_tasks ts =
     (let s1 = snd (Initialize env_ok resources new_Application);
          s2 = AddWindow 1 s1
      in case RunOneTick env_ok True s2 of
           Inl err \<Rightarrow> Inl err
         | Inr (b, s3) \<Rightarrow>
             RunOneTick env_ok True (RemoveWindow (Some 1) (fold RunInThread ts s3)))"

section \<open>Properties\<close>

subsection \<open>Auxiliary facts\<close>

lemma emit_fields [simp]:
  "trace (emit es s) = trace s @ es"
  "windows (emit es s) = windows s"
  "windows_to_be_destroyed (emit es s) = windows_to_be_destroyed s"
  "posted (emit es s) = posted s"
  "running_tasks (emit es s) = running_tasks s"
  "should_quit (emit es s) = should_quit s"
  "is_running (emit es s) = is_running s"
  "is_initialized (emit es s) = is_initialized s"
  "last_time (emit es s) = last_time s"
  "font_path (emit es s) = font_path s"
  "engine_resource_path (emit es s) = engine_resource_path s"
  "window_system (emit es s) = window_system s"
  "is_ws_initialized (emit es s) = is_ws_initialized s"
  by (simp_all add: emit_def)

lemma emit_emit: "emit es (emit ds s) = emit (ds @ es) s"
  by (simp add: emit_def)

lemma emit_Nil [simp]: "emit [] s = s"
  by (simp add: emit_def)

lemma since_emit: "since s (emit es s) = es"
  by (simp add: since_def)

lemma calls_append: "calls (xs @ ys) = calls xs @ calls ys"
  by (induction xs rule: calls.induct) simp_all

lemma ticks_append: "ticks (xs @ ys) = ticks xs @ ticks ys"
  by (induction xs rule: ticks.induct) simp_all

lemma calls_Join: "calls (map Join ts) = []"
  by (induction ts) simp_all

lemma ticks_Join: "ticks (map Join ts) = []"
  by (induction ts) simp_all


lemma ticks_run_posted: "ticks (run_posted ws p) = []"
  by (simp add: run_posted_def split: option.splits)


lemma ticks_concat_run_posted: "ticks (concat (map (run_posted ws) ps)) = []"
  by (induction ps) (simp_all add: ticks_append ticks_run_posted)


lemma ticks_drain_events: "ticks (drain_events s) = []"
  by (simp add: drain_events_def ticks_concat_run_posted)

subsection \<open>Facts about the double arithmetic\<close>

lemma floor_log2_eq:
  assumes "2 powi k \<le> x" "x < 2 powi (k + 1)"
  shows "\<lfloor>log 2 x\<rfloor> = k"
proof -
  have "0 < (2::real) powi k" by simp
  with assms have x: "0 < x" by linarith
  have a: "(2::real) powr (of_int k) = 2 powi k"
    by (simp add: powr_real_of_int')
  have "(2::real) powr (of_int k + 1) = 2 powr (of_int (k + 1))"
    by simp
  also have "\<dots> = 2 powi (k + 1)"
    by (rule powr_real_of_int') simp_all
  finally have b: "(2::real) powr (of_int k + 1) = 2 powi (k + 1)" .
  have "\<lfloor>log 2 x\<rfloor> = k \<longleftrightarrow> 2 powr (of_int k) \<le> x \<and> x < 2 powr (of_int k + 1)"
    using floor_log_eq_powr_iff[of x 2 k] x by simp
  then show ?thesis
    using assms unfolding a b by blast
qed

text \<open>
  The rounding of a number in the normal range, once the position \<open>k\<close> of its last
  significant bit is known.
\<close>

lemma to_double_normal:
  assumes "2 powi (k + 52) \<le> \<bar>x\<bar>" "\<bar>x\<bar> < 2 powi (k + 53)" "- 1074 \<le> k"
  shows "to_double x = of_int (round_ties_even (x / 2 powi k)) * 2 powi k"
proof -
  have "\<lfloor>log 2 \<bar>x\<bar>\<rfloor> = k + 52"
    using assms by (intro floor_log2_eq) (simp_all add: add.commute add.left_commute)
  then have "ulp_exponent x = k" using assms(3) by (simp add: ulp_exponent_def)
  moreover have "x \<noteq> 0"
  proof
    assume "x = 0"
    with assms(1) have "2 powi (k + 52) \<le> (0::real)" by simp
    moreover have "0 < (2::real) powi (k + 52)" by simp
    ultimately show False by linarith
  qed
  ultimately show ?thesis by (simp add: to_double_def)
qed

lemmas round_eval = round_ties_even_def power_int_minus Let_def field_simps

text \<open>The literals \<^verbatim>\<open>0.95\<close> and \<^verbatim>\<open>0.010\<close>, and their product, as binary64 values.\<close>

lemma to_double_0_95: "to_double 0.95 = 4278419646001971 / 2 ^ 52"
  by (subst to_double_normal[where k = "-53"]) (simp_all add: round_eval)

lemma RUNLOOP_DELAY_SEC_value: "RUNLOOP_DELAY_SEC = 5764607523034235 / 2 ^ 59"
  unfolding RUNLOOP_DELAY_SEC_def
  by (subst to_double_normal[where k = "-59"]) (simp_all add: round_eval)

lemma tick_threshold:
  "to_double (to_double 0.95 * RUNLOOP_DELAY_SEC) = 5476377146882523 / 2 ^ 59"
  unfolding to_double_0_95 RUNLOOP_DELAY_SEC_value
  by (subst to_double_normal[where k = "-59"]) (simp_all add: round_eval)

lemma tick_threshold_below: "(5476377146882523 / 2 ^ 59 :: real) < 95 / 100 * (10 / 1000)"
  by simp

lemma tick_due_iff: "tick_due now prev \<longleftrightarrow> 5476377146882523 / 2 ^ 59 \<le> to_double (now - prev)"
  by (simp only: tick_due_def tick_threshold)

lemma to_double_0 [simp]: "to_double 0 = 0"
  by (simp add: to_double_def)

lemma to_double_1 [simp]: "to_double 1 = 1"
  by (subst to_double_normal[where k = "-52"]) (simp_all add: round_eval)

lemma to_double_2 [simp]: "to_double 2 = 2"
  by (subst to_double_normal[where k = "-51"]) (simp_all add: round_eval)

lemma to_double_256th [simp]: "to_double (1 / 256) = 1 / 256"
  by (subst to_double_normal[where k = "-60"]) (simp_all add: round_eval)

lemma to_double_boundary_time: "to_double boundary_time = boundary_time"
  unfolding boundary_time_def
  by (subst to_double_normal[where k = "-59"]) (simp_all add: round_eval)


lemma tick_due_boundary_time [simp]: "tick_due boundary_time 0"
proof -
  have h: "to_double (boundary_time - 0) = boundary_time"
    by (simp only: diff_zero to_double_boundary_time)
  show ?thesis
    unfolding tick_due_iff h by (simp add: boundary_time_def)
qed


subsection \<open>Facts about the drain\<close>

lemma none_throws_frame [simp]:
  "none_throws e (emit es s) = none_throws e s"
  "none_throws e (s\<lparr>last_time := t\<rparr>) = none_throws e s"
  "none_throws e (s\<lparr>is_running := b\<rparr>) = none_throws e s"
  by (simp_all add: none_throws_def)


text \<open>
  Whether it returns or raises, a drain only adds events; none of them is a tick, and
  every closure called belongs to an entry that passes the test of the loop.
\<close>

lemma drain_any:
  "\<exists>es. drained (drain e ps s) = emit es s \<and> ticks es = []
        \<and> set (calls es) \<subseteq> snd ` {p \<in> set ps. still_active (windows s) p}"
proof (induction ps arbitrary: s)
  case Nil
  have "drained (drain e [] s) = emit [] s \<and> ticks [] = []
        \<and> set (calls []) \<subseteq> snd ` {p \<in> set []. still_active (windows s) p}"
    by (simp add: drained_def)
  then show ?case by blast
next
  case (Cons p ps)
  have step: "\<exists>es. drained (drain e ps (emit ds s)) = emit es s \<and> ticks es = []
          \<and> set (calls es) \<subseteq> set (calls ds) \<union> snd ` {q \<in> set ps. still_active (windows s) q}"
    if "ticks ds = []" for ds
  proof -
    from Cons.IH[of "emit ds s"] obtain es where
      es: "drained (drain e ps (emit ds s)) = emit es (emit ds s)" "ticks es = []"
      "set (calls es) \<subseteq> snd ` {q \<in> set ps. still_active (windows s) q}"
      by auto
    have "drained (drain e ps (emit ds s)) = emit (ds @ es) s \<and> ticks (ds @ es) = []
          \<and> set (calls (ds @ es))
             \<subseteq> set (calls ds) \<union> snd ` {q \<in> set ps. still_active (windows s) q}"
      using es that by (auto simp: emit_emit ticks_append calls_append)
    then show ?thesis by blast
  qed
  show ?case
  proof (cases "fst p")
    case None
    then have act: "still_active (windows s) p" by (simp add: still_active_def)
    show ?thesis
    proof (cases "Throws e (snd p)")
      case True
      with None act
      have "drained (drain e (p # ps) s) = emit [Call (snd p)] s \<and> ticks [Call (snd p)] = []
            \<and> set (calls [Call (snd p)])
               \<subseteq> snd ` {q \<in> set (p # ps). still_active (windows s) q}"
        by (auto simp: drained_def)
      then show ?thesis by blast
    next
      case False
      from step[of "[Call (snd p)]"] obtain es where
        "drained (drain e ps (emit [Call (snd p)] s)) = emit es s" "ticks es = []"
        "set (calls es) \<subseteq> set (calls [Call (snd p)])
           \<union> snd ` {q \<in> set ps. still_active (windows s) q}"
        by auto
      with None False act
      have "drained (drain e (p # ps) s) = emit es s \<and> ticks es = []
            \<and> set (calls es) \<subseteq> snd ` {q \<in> set (p # ps). still_active (windows s) q}"
        by auto
      then show ?thesis by blast
    qed
  next
    case (Some w)
    show ?thesis
    proof (cases "w \<in> windows s")
      case inw: True
      with Some have act: "still_active (windows s) p" by (simp add: still_active_def)
      show ?thesis
      proof (cases "Throws e (snd p)")
        case True
        with Some inw act
        have "drained (drain e (p # ps) s) = emit [MakeDrawContextCurrent w, Call (snd p)] s
              \<and> ticks [MakeDrawContextCurrent w, Call (snd p)] = []
              \<and> set (calls [MakeDrawContextCurrent w, Call (snd p)])
                 \<subseteq> snd ` {q \<in> set (p # ps). still_active (windows s) q}"
          by (auto simp: drained_def)
        then show ?thesis by blast
      next
        case False
        let ?ds = "[MakeDrawContextCurrent w, Call (snd p), RestoreDrawContext w, PostRedraw w]"
        from step[of ?ds] obtain es where
          "drained (drain e ps (emit ?ds s)) = emit es s" "ticks es = []"
          "set (calls es) \<subseteq> set (calls ?ds)
             \<union> snd ` {q \<in> set ps. still_active (windows s) q}"
          by auto
        with Some inw False act
        have "drained (drain e (p # ps) s) = emit es s \<and> ticks es = []
              \<and> set (calls es) \<subseteq> snd ` {q \<in> set (p # ps). still_active (windows s) q}"
          by auto
        then show ?thesis by blast
      qed
    next
      case False
      from step[of "[]"] obtain es where
        "drained (drain e ps s) = emit es s" "ticks es = []"
        "set (calls es) \<subseteq> snd ` {q \<in> set ps. still_active (windows s) q}"
        by auto
      with Some False
      have "drained (drain e (p # ps) s) = emit es s \<and> ticks es = []
            \<and> set (calls es) \<subseteq> snd ` {q \<in> set (p # ps). still_active (windows s) q}"
        by auto
      then show ?thesis by blast
    qed
  qed
qed


lemma run_posted_functions_any:
  "\<exists>es ps. drained (run_posted_functions e s) = (emit es s)\<lparr>posted := ps\<rparr>
           \<and> ticks es = []
           \<and> set (calls es) \<subseteq> snd ` {p \<in> set (posted s). still_active (windows s) p}"
proof -
  let ?s3 = "emit [Unlock, Relock] s"
  from drain_any[of e "posted s" ?s3] obtain es where
    es: "drained (drain e (posted s) ?s3) = emit es ?s3" "ticks es = []"
    "set (calls es) \<subseteq> snd ` {p \<in> set (posted s). still_active (windows s) p}"
    by auto
  have t: "ticks ([Unlock, Relock] @ es) = []" "calls ([Unlock, Relock] @ es) = calls es"
    using es(2) by simp_all
  show ?thesis
  proof (cases "drain e (posted s) ?s3")
    case (Inl raised)
    with es(1) have "drained (run_posted_functions e s)
        = (emit ([Unlock, Relock] @ es) s)\<lparr>posted := posted s\<rparr>"
      by (cases raised) (auto simp: run_posted_functions_def Let_def drained_def emit_def)
    with t es(3) show ?thesis by metis
  next
    case (Inr s4)
    with es(1) have "drained (run_posted_functions e s)
        = (emit ([Unlock, Relock] @ es) s)\<lparr>posted := []\<rparr>"
      by (auto simp: run_posted_functions_def Let_def drained_def emit_def)
    with t es(3) show ?thesis by metis
  qed
qed

lemma remove_finished_eq:
  "remove_finished e ts =
     (map Join (filter (IsFinished e) ts), filter (\<lambda>t. \<not> IsFinished e t) ts)"
  by (induction ts) simp_all

subsection \<open>Facts about one pass and one step\<close>



text \<open>A pass changes neither the window system, nor the run state, nor the active set.\<close>

lemma PQE_keeps:
  "window_system (stepped (ProcessQueuedEvents e s)) = window_system s
   \<and> is_running (stepped (ProcessQueuedEvents e s)) = is_running s
   \<and> windows (stepped (ProcessQueuedEvents e s)) = windows s"
proof -
  let ?s1 = "emit [Unlock, WaitEventsTimeout RUNLOOP_DELAY_SEC, Relock] s"
  let ?s2 = "if tick_due (Now e) (last_time s)
             then (emit [OnTickEvent (windows s)] ?s1)\<lparr>last_time := Now e\<rparr> else ?s1"
  from run_posted_functions_any[of e ?s2] obtain es ps where
    es: "drained (run_posted_functions e ?s2) = (emit es ?s2)\<lparr>posted := ps\<rparr>"
    by auto
  show ?thesis
  proof (cases "run_posted_functions e ?s2")
    case (Inl raised)
    with es show ?thesis
      by (cases raised)
         (auto simp: ProcessQueuedEvents_def Let_def stepped_def drained_def split: if_splits)
  next
    case (Inr s4)
    with es show ?thesis
      by (auto simp: ProcessQueuedEvents_def Let_def stepped_def drained_def
          remove_finished_eq split: if_splits)
  qed
qed

lemma clear_loop_joins: "\<exists>js. fst (clear_loop todo skipped) = map Join js"
proof (induction todo skipped rule: clear_loop.induct)
  case (1 skipped)
  have "fst (clear_loop [] skipped) = map Join []" by simp
  then show ?case by blast
next
  case (2 t skipped)
  then obtain js where "fst (clear_loop skipped []) = map Join js" by auto
  then have "fst (clear_loop [t] skipped) = map Join (t # js)"
    by (auto split: prod.splits)
  then show ?case by blast
next
  case (3 t u ts skipped)
  then obtain js where "fst (clear_loop ts (skipped @ [u])) = map Join js" by auto
  then have "fst (clear_loop (t # u # ts) skipped) = map Join (t # js)"
    by (auto split: prod.splits)
  then show ?case by blast
qed

lemma cleanup_if_done_keeps:
  "(\<exists>es. trace (cleanup_if_done c status s) = trace s @ es \<and> ticks es = [])
   \<and> last_time (cleanup_if_done c status s) = last_time s
   \<and> windows (cleanup_if_done c status s) = windows s
   \<and> window_system (cleanup_if_done c status s) = window_system s
   \<and> (is_running (cleanup_if_done c status s) \<longrightarrow> is_running s)"
proof -
  obtain js where js: "fst (clear_running_tasks (running_tasks s)) = map Join js"
    using clear_loop_joins by (auto simp: clear_running_tasks_def)
  define es where "es = (if status = DONE \<and> c
     then map Join js @ [DestroyInstance]
          @ (if window_system s \<noteq> None then [WS_Uninitialize] else [])
     else [])"
  have "trace (cleanup_if_done c status s) = trace s @ es"
    using js by (cases "clear_running_tasks (running_tasks s)")
       (simp add: es_def cleanup_if_done_def CleanupAfterRunning_def Let_def)
  moreover have "ticks es = []"
    by (simp add: es_def ticks_append ticks_Join)
  moreover have "last_time (cleanup_if_done c status s) = last_time s
   \<and> windows (cleanup_if_done c status s) = windows s
   \<and> window_system (cleanup_if_done c status s) = window_system s
   \<and> (is_running (cleanup_if_done c status s) \<longrightarrow> is_running s)"
    by (cases "clear_running_tasks (running_tasks s)")
       (simp add: cleanup_if_done_def CleanupAfterRunning_def Let_def)
  ultimately show ?thesis by blast
qed

lemma PrepareForRunning_fields:
  "is_initialized (PrepareForRunning s) = is_initialized s"
  "window_system (PrepareForRunning s) \<noteq> None"
  "is_ws_initialized (PrepareForRunning s)"
  by (simp_all add: PrepareForRunning_def InitWindowSystem_def Let_def)

lemma PrepareForRunning_again:
  "window_system s \<noteq> None \<Longrightarrow> is_ws_initialized s \<Longrightarrow>
   PrepareForRunning s = s\<lparr>trace := trace s @ [SelectBackend_kOpenGL]\<rparr>"
  by (simp add: PrepareForRunning_def InitWindowSystem_def emit_def)




subsection \<open>Facts about the registry and the concrete runs\<close>

lemma AddWindow_sets:
  "windows (AddWindow w s) = insert w (windows s)"
  "windows_to_be_destroyed (AddWindow w s) = windows_to_be_destroyed s"
  by (simp_all add: AddWindow_def Let_def)

lemma RemoveWindow_sets:
  "windows (RemoveWindow wp s) = (case wp of None \<Rightarrow> windows s | Some w \<Rightarrow> windows s - {w})"
  "windows_to_be_destroyed (RemoveWindow wp s) =
     (case wp of None \<Rightarrow> windows_to_be_destroyed s
      | Some w \<Rightarrow> if w \<in> windows s then insert w (windows_to_be_destroyed s)
                  else windows_to_be_destroyed s)"
  by (auto simp: RemoveWindow_def Let_def split: option.splits)


text \<open>A window that is not active stays so until \<^verbatim>\<open>AddWindow\<close> is called with it.\<close>

lemma stays_inactive:
  "w \<notin> windows s \<Longrightarrow> Add w \<notin> set xs \<Longrightarrow> w \<notin> windows (run_ops xs s)"
proof (induction xs arbitrary: s)
  case Nil
  then show ?case by simp
next
  case (Cons x xs)
  from Cons.prems have "w \<notin> windows (apply_op x s)"
    by (cases x) (auto simp: AddWindow_sets RemoveWindow_sets split: option.splits)
  with Cons.IH Cons.prems(2) show ?case by simp
qed

lemma RemoveWindow_last:
  "windows s = {w} \<Longrightarrow>
     windows (RemoveWindow (Some w) s) = {} \<and> should_quit (RemoveWindow (Some w) s)"
  by (simp add: RemoveWindow_def)

text \<open>The argument of \<^verbatim>\<open>Initialize\<close> has no influence on what it does.\<close>

lemma Initialize_argument_unused: "Initialize e p s = Initialize e q s"
  by (simp add: Initialize_def)

lemma registry_ok_general:
  "windows s \<inter> windows_to_be_destroyed s = {} \<Longrightarrow> adds_not_pending xs s \<Longrightarrow>
   registry_ok xs s"
proof (induction xs arbitrary: s)
  case Nil
  then show ?case by simp
next
  case (Cons x xs)
  show ?case
  proof (cases x)
    case (Add w)
    with Cons.prems have np: "w \<notin> windows_to_be_destroyed s"
      and rest: "adds_not_pending xs (AddWindow w s)" by simp_all
    have d: "windows (AddWindow w s) \<inter> windows_to_be_destroyed (AddWindow w s) = {}"
      using Cons.prems(1) np by (auto simp: AddWindow_sets)
    have m: "windows_to_be_destroyed s \<inter> windows (AddWindow w s) \<subseteq> windows s"
      using np by (auto simp: AddWindow_sets)
    from Cons.IH[OF d rest] d m Add show ?thesis by simp
  next
    case (Remove wp)
    with Cons.prems have rest: "adds_not_pending xs (RemoveWindow wp s)" by simp
    have d: "windows (RemoveWindow wp s) \<inter> windows_to_be_destroyed (RemoveWindow wp s) = {}"
      using Cons.prems(1) by (auto simp: RemoveWindow_sets split: option.splits)
    have m: "windows_to_be_destroyed s \<inter> windows (RemoveWindow wp s) \<subseteq> windows s"
      by (auto simp: RemoveWindow_sets split: option.splits)
    from Cons.IH[OF d rest] d m Remove show ?thesis by simp
  qed
qed

lemmas run_defs =
  env_ok_def resources_def Initialize_def Let_def new_Application_def
  PrepareForRunning_def InitWindowSystem_def emit_def AddWindow_def RunOneTick_def
  start_if_not_running_def cleanup_if_done_def ProcessQueuedEvents_def
  run_posted_functions_def remove_finished_eq clear_running_tasks_def
  RemoveWindow_def RunInThread_def CleanupAfterRunning_def PostToMainThread_def
  stepped_def drained_def






text \<open>
  The window system exists once the loop is running, from the constructor on and
  through every operation.
\<close>

lemma ws_ready_kept:
  "ws_ready new_Application"
  "ws_ready s \<Longrightarrow> ws_ready (snd (Initialize e p s))"
  "ws_ready s \<Longrightarrow> ws_ready (AddWindow w s)"
  "ws_ready s \<Longrightarrow> ws_ready (RemoveWindow wp s)"
  "ws_ready s \<Longrightarrow> ws_ready (PostToMainThread wp f s)"
  "ws_ready s \<Longrightarrow> ws_ready (RunInThread t s)"
  by (auto simp: ws_ready_def new_Application_def Initialize_def PrepareForRunning_def
      InitWindowSystem_def AddWindow_def RemoveWindow_def PostToMainThread_def
      RunInThread_def Let_def split: option.splits)

lemma ws_ready_RunOneTick: "ws_ready s \<Longrightarrow> ws_ready (stepped (RunOneTick e c s))"
proof (cases "start_if_not_running e s")
  case (Inl s')
  assume "ws_ready s"
  with Inl show ?thesis
    by (auto simp: RunOneTick_def stepped_def start_if_not_running_def ws_ready_def
        split: if_splits)
next
  case (Inr s1)
  assume "ws_ready s"
  with Inr PrepareForRunning_fields(2)[of s] have s1: "window_system s1 \<noteq> None"
    by (auto simp: start_if_not_running_def ws_ready_def split: if_splits)
  from PQE_keeps[of e s1] s1
  have k: "window_system (stepped (ProcessQueuedEvents e s1)) \<noteq> None" by simp
  show ?thesis
  proof (cases "ProcessQueuedEvents e s1")
    case (Inl raised)
    with Inr k show ?thesis
      by (cases raised) (simp add: RunOneTick_def stepped_def ws_ready_def)
  next
    case (Inr r)
    obtain status s2 where r: "r = (status, s2)" by (cases r)
    with Inr k have "window_system s2 \<noteq> None" by (simp add: stepped_def)
    with cleanup_if_done_keeps[of c status s2]
    have "window_system (cleanup_if_done c status s2) \<noteq> None" by simp
    with \<open>start_if_not_running e s = Inr s1\<close> Inr r show ?thesis
      by (simp add: RunOneTick_def stepped_def ws_ready_def)
  qed
qed

subsection \<open>Initialize\<close>

text \<open>
  Claim C1. \<^verbatim>\<open>Initialize(path)\<close> is to configure the resource and font paths from
  \<open>path\<close> and to raise a hard error exactly when \<^verbatim>\<open>ui_blit.filamat\<close> is missing
  under \<open>path\<close>. The code builds the path from the home directory instead (under a
  comment that asks for the hard-coded path to be removed). Here the file exists under
  the path given, and not under the home directory: the call raises, and the engine's
  resource path is the one under the home directory.
\<close>

theorem Initialize_ignores_given_path:
  "FileExists env_bundle_elsewhere (''/opt/open3d/resources'' @ ''/ui_blit.filamat'')
   \<and> fst (Initialize env_bundle_elsewhere ''/opt/open3d/resources'' new_Application)
       = Inl (LogError (''Resource directory does not have Open3D resources: ''
                          @ ''/home/user/repo/Open3D/build/bin/resources''))
   \<and> engine_resource_path
        (snd (Initialize env_bundle_elsewhere ''/opt/open3d/resources'' new_Application))
       = ''/home/user/repo/Open3D/build/bin/resources''"
  by (simp add: env_bundle_elsewhere_def Initialize_def Let_def new_Application_def
      PrepareForRunning_def InitWindowSystem_def emit_def)

text \<open>
  Claim C9. Once the application is initialized (the flag is set by a successful
  \<^verbatim>\<open>Initialize\<close> and never cleared), a further \<^verbatim>\<open>Initialize\<close>, with any argument
  and whatever is on disk by then, succeeds without looking for the resource file and
  does no more than prepare the environment for running: the font path (so its prefix),
  the resource path and the initialized flag stay as they are. Repeating the call once
  more changes nothing but the trace, which gains the repeated selection of the
  rendering backend.
\<close>

theorem Initialize_twice:
  assumes "is_initialized s"
  shows "Initialize e p s = (Inr (), PrepareForRunning s)
         \<and> font_path (PrepareForRunning s) = font_path s
         \<and> engine_resource_path (PrepareForRunning s) = engine_resource_path s
         \<and> is_initialized (PrepareForRunning s)
         \<and> Initialize e' p' (PrepareForRunning s)
             = (Inr (), (PrepareForRunning s)
                          \<lparr>trace := trace (PrepareForRunning s) @ [SelectBackend_kOpenGL]\<rparr>)"
proof -
  have i: "is_initialized (PrepareForRunning s)"
    using assms by (simp add: PrepareForRunning_fields)
  have 1: "Initialize e p s = (Inr (), PrepareForRunning s)"
    using i by (simp add: Initialize_def Let_def)
  have 2: "font_path (PrepareForRunning s) = font_path s"
    "engine_resource_path (PrepareForRunning s) = engine_resource_path s"
    by (simp_all add: PrepareForRunning_def InitWindowSystem_def Let_def)
  have 3: "PrepareForRunning (PrepareForRunning s)
             = (PrepareForRunning s)
                 \<lparr>trace := trace (PrepareForRunning s) @ [SelectBackend_kOpenGL]\<rparr>"
    by (rule PrepareForRunning_again) (rule PrepareForRunning_fields)+
  have 4: "Initialize e' p' (PrepareForRunning s)
             = (Inr (), PrepareForRunning (PrepareForRunning s))"
    using i by (simp add: Initialize_def Let_def PrepareForRunning_fields)
  show ?thesis
    using 1 2 i 3 4 by simp
qed

theorem Initialize_twice_witness:
  "fst (Initialize env_ok resources new_Application) = Inr ()
   \<and> is_initialized (snd (Initialize env_ok resources new_Application))
   \<and> font_path (snd (Initialize env_ok resources new_Application))
       = ''/home/user/repo/Open3D/build/bin/resources/Roboto-Medium.ttf''
   \<and> fst (Initialize env_empty ''/elsewhere''
             (snd (Initialize env_ok resources new_Application))) = Inr ()
   \<and> font_path (snd (Initialize env_empty ''/elsewhere''
                        (snd (Initialize env_ok resources new_Application))))
       = ''/home/user/repo/Open3D/build/bin/resources/Roboto-Medium.ttf''"
proof -
  have r: "fst (Initialize env_ok resources new_Application) = Inr ()"
    by (simp add: run_defs)
  have h: "is_initialized (snd (Initialize env_ok resources new_Application))"
    by (simp add: run_defs)
  have f: "font_path (snd (Initialize env_ok resources new_Application))
             = ''/home/user/repo/Open3D/build/bin/resources/Roboto-Medium.ttf''"
    by (simp add: run_defs)
  show ?thesis
    using Initialize_twice[OF h, of env_empty "''/elsewhere''"] r h f by simp
qed

subsection \<open>The window registry\<close>

text \<open>
  Claim C2, as stated: after every operation of every sequence of \<^verbatim>\<open>AddWindow\<close> and
  \<^verbatim>\<open>RemoveWindow\<close> from the empty registry, the active windows and the windows
  pending destruction are disjoint, and no window goes from pending back to active.
  \<^verbatim>\<open>AddWindow\<close> inserts without looking at the pending set, so adding a window
  again after it was removed puts it in both sets.
\<close>

theorem registry_readd_counterexample:
  "\<not> (windows (run_ops [Add 1, Remove (Some 1), Add 1] new_Application)
       \<inter> windows_to_be_destroyed (run_ops [Add 1, Remove (Some 1), Add 1] new_Application)
       = {})
   \<and> 1 \<in> windows_to_be_destroyed (run_ops [Add 1, Remove (Some 1)] new_Application)
   \<and> 1 \<notin> windows (run_ops [Add 1, Remove (Some 1)] new_Application)
   \<and> 1 \<in> windows (run_ops [Add 1, Remove (Some 1), Add 1] new_Application)"
  by (simp add: AddWindow_sets RemoveWindow_sets new_Application_def)

text \<open>
  Claim C2, amended: for every sequence of \<^verbatim>\<open>AddWindow\<close> and \<^verbatim>\<open>RemoveWindow\<close>
  from an empty registry in which \<^verbatim>\<open>AddWindow\<close> is never given a window that is
  pending destruction at that moment, the two sets are disjoint after every operation
  and no window goes from pending back to active.
\<close>

theorem registry_disjoint_unless_readded:
  assumes "windows s = {}" and "windows_to_be_destroyed s = {}"
    and "adds_not_pending xs s"
  shows "registry_ok xs s"
  using assms by (intro registry_ok_general) simp_all

theorem registry_disjoint_unless_readded_witness:
  "windows new_Application = {} \<and> windows_to_be_destroyed new_Application = {}
   \<and> adds_not_pending [Add 1, Add 2, Remove (Some 1), Remove None, Add 3, Remove (Some 2)]
        new_Application
   \<and> registry_ok [Add 1, Add 2, Remove (Some 1), Remove None, Add 3, Remove (Some 2)]
        new_Application"
proof -
  have a: "windows new_Application = {}" and b: "windows_to_be_destroyed new_Application = {}"
    by (simp_all add: new_Application_def)
  have c: "adds_not_pending [Add 1, Add 2, Remove (Some 1), Remove None, Add 3, Remove (Some 2)]
             new_Application"
    by (simp add: AddWindow_sets RemoveWindow_sets new_Application_def)
  show ?thesis
    using registry_disjoint_unless_readded[OF a b c] a b c by simp
qed

text \<open>
  Claim C10. \<^verbatim>\<open>RemoveWindow\<close> with a pointer that is not in the active set (the null
  pointer included) leaves the active set and the pending set as they are, and changes
  nothing else either, except that it sets the quit flag when the active set is empty.
\<close>

theorem RemoveWindow_not_active:
  assumes "\<forall>w. wp = Some w \<longrightarrow> w \<notin> windows s"
  shows "RemoveWindow wp s = (if windows s = {} then s\<lparr>should_quit := True\<rparr> else s)
         \<and> windows (RemoveWindow wp s) = windows s
         \<and> windows_to_be_destroyed (RemoveWindow wp s) = windows_to_be_destroyed s
         \<and> (windows s = {} \<longrightarrow> should_quit (RemoveWindow wp s))"
  using assms by (cases wp) (simp_all add: RemoveWindow_def)

theorem RemoveWindow_not_active_witness:
  "3 \<notin> windows one_window
   \<and> RemoveWindow (Some 3) one_window = one_window
   \<and> windows new_Application = {}
   \<and> RemoveWindow (Some 3) new_Application = new_Application\<lparr>should_quit := True\<rparr>
   \<and> should_quit (RemoveWindow None new_Application)"
proof -
  have a: "\<forall>w. Some (3::nat) = Some w \<longrightarrow> w \<notin> windows one_window"
    by (simp add: one_window_def AddWindow_sets new_Application_def)
  have b: "\<forall>w. Some (3::nat) = Some w \<longrightarrow> w \<notin> windows new_Application"
    by (simp add: new_Application_def)
  have c: "\<forall>w. (None :: window option) = Some w \<longrightarrow> w \<notin> windows new_Application"
    by simp
  have d: "windows one_window = {1}" and e: "windows new_Application = {}"
    by (simp_all add: one_window_def AddWindow_sets new_Application_def)
  show ?thesis
    using RemoveWindow_not_active[OF a] RemoveWindow_not_active[OF b]
      RemoveWindow_not_active[OF c] d e
    by simp
qed

subsection \<open>The post queue\<close>







subsection \<open>Ticks\<close>




subsection \<open>One tick of the run loop\<close>

text \<open>
  Claim C6. A step taken while the loop is not running, with the application not
  initialized, or the resource directory missing, or the UI font file missing, shows a
  native alert and returns false; the state is otherwise untouched, so the loop is
  still not running, no tick was dispatched and \<^verbatim>\<open>last_time_\<close> is unchanged.
\<close>

theorem RunOneTick_configuration_error:
  assumes "\<not> is_running s"
    and "\<not> is_initialized s \<or> \<not> DirectoryExists e (engine_resource_path s)
         \<or> \<not> FileExists e (font_path s)"
  shows "\<exists>msg s'. RunOneTick e c s = Inr (False, s')
           \<and> s' = s\<lparr>trace := trace s @ [ShowNativeAlert msg]\<rparr>
           \<and> \<not> is_running s' \<and> ticks (since s s') = [] \<and> last_time s' = last_time s"
  using assms by (auto simp: RunOneTick_def start_if_not_running_def emit_def since_def)

theorem RunOneTick_configuration_error_witness:
  "\<not> is_running new_Application \<and> \<not> is_initialized new_Application
   \<and> fst (projr (RunOneTick env_ok True new_Application)) = False
   \<and> \<not> is_running (snd (projr (RunOneTick env_ok True new_Application)))
   \<and> \<not> is_running initialized_app \<and> is_initialized initialized_app
   \<and> \<not> DirectoryExists env_empty (engine_resource_path initialized_app)
   \<and> fst (projr (RunOneTick env_empty True initialized_app)) = False
   \<and> \<not> is_running (snd (projr (RunOneTick env_empty True initialized_app)))
   \<and> DirectoryExists env_no_font (engine_resource_path initialized_app)
   \<and> \<not> FileExists env_no_font (font_path initialized_app)
   \<and> fst (projr (RunOneTick env_no_font True initialized_app)) = False
   \<and> \<not> is_running (snd (projr (RunOneTick env_no_font True initialized_app)))"
proof -
  have a: "\<not> is_running new_Application" and b: "\<not> is_initialized new_Application"
    by (simp_all add: new_Application_def)
  from b have c: "\<not> is_initialized new_Application
      \<or> \<not> DirectoryExists env_ok (engine_resource_path new_Application)
      \<or> \<not> FileExists env_ok (font_path new_Application)"
    by simp
  have i: "\<not> is_running initialized_app" "is_initialized initialized_app"
    "engine_resource_path initialized_app = resources"
    "font_path initialized_app = resources @ ''/Roboto-Medium.ttf''"
    by (simp_all add: initialized_app_def run_defs)
  have d: "\<not> DirectoryExists env_empty (engine_resource_path initialized_app)"
    by (simp add: env_empty_def)
  then have d': "\<not> is_initialized initialized_app
      \<or> \<not> DirectoryExists env_empty (engine_resource_path initialized_app)
      \<or> \<not> FileExists env_empty (font_path initialized_app)"
    by simp
  have f: "DirectoryExists env_no_font (engine_resource_path initialized_app)"
    "\<not> FileExists env_no_font (font_path initialized_app)"
    by (simp_all add: env_no_font_def env_ok_def i)
  then have f': "\<not> is_initialized initialized_app
      \<or> \<not> DirectoryExists env_no_font (engine_resource_path initialized_app)
      \<or> \<not> FileExists env_no_font (font_path initialized_app)"
    by simp
  show ?thesis
    using RunOneTick_configuration_error[OF a c, of True]
      RunOneTick_configuration_error[OF i(1) d', of True]
      RunOneTick_configuration_error[OF i(1) f', of True]
      a b i(1,2) d f
    by auto
qed

text \<open>
  Claim C7. When a step finds the loop done and cleanup is requested, every remaining
  task is to be erased from the task list, and so joined, before the environment is
  uninitialized. The loop that does it advances its iterator twice in each round, so it
  erases every second task only. In the run below two tasks are still running when the
  last window is removed: the step returns false with the loop stopped, the window
  system uninitialized and the quit flag reset, and task 6 is still in the list and
  was never joined.
\<close>

theorem cleanup_leaves_second_task:
  "(case close_last_window_with_tasks [5, 6] of
      Inl err \<Rightarrow> False
    | Inr (continue, s) \<Rightarrow>
        \<not> continue \<and> running_tasks s = [6] \<and> Join 5 \<in> set (trace s)
        \<and> Join 6 \<notin> set (trace s) \<and> WS_Uninitialize \<in> set (trace s)
        \<and> \<not> is_running s \<and> \<not> is_ws_initialized s \<and> \<not> should_quit s)"
  by (simp add: close_last_window_with_tasks_def run_defs)




end
